theory Spec2Isabelle
  imports Complex_Main "HOL-Library.Word"
begin

section \<open>Values and errors\<close>

text \<open>
  Every exception that \<^verbatim>\<open>fqdns.py\<close> raises itself, and every exception that its data
  can provoke in the library calls it makes, is a value of \<open>error\<close>:
  \<^item> \<open>Value_error\<close>: \<^verbatim>\<open>int(server_port)\<close> on a string that is no integer literal, and
    the tuple assignment \<^verbatim>\<open>server_ip, server_port = at.split(':')\<close> when the split has
    not exactly two parts;
  \<^item> \<open>Socket_error\<close>: \<^verbatim>\<open>socket.inet_ntoa\<close> on a packed address that is not 4 bytes long;
  \<^item> \<open>Unpack_error\<close>: \<^verbatim>\<open>dpkt.dns.DNS(bytes)\<close> on bytes that are no DNS message;
  \<^item> \<open>Type_error\<close>: a value used as a list that is none (subscripting or iterating a
    single \<^verbatim>\<open>dpkt.dns.DNS\<close> object, hashing a list);
  \<^item> \<open>Index_error\<close>: subscripting an empty list;
  \<^item> \<open>Failed_to_read\<close>: \<^verbatim>\<open>Exception('failed to read dns response')\<close>;
  \<^item> \<open>Unsupported_strategy s\<close>: \<^verbatim>\<open>Exception('unsupported strategy: %s' % strategy)\<close>.
\<close>

datatype error =
    Value_error
  | Socket_error
  | Unpack_error
  | Type_error
  | Index_error
  | Failed_to_read
  | Unsupported_strategy string

text \<open>
  The values \<^verbatim>\<open>resolve_over_udp\<close> returns are Python lists of strings or lists of lists
  of strings, and \<^verbatim>\<open>discover_once\<close> inspects them with \<^verbatim>\<open>len\<close>, \<^verbatim>\<open>for\<close> and \<^verbatim>\<open>set\<close>
  without knowing which of the two it holds. They are modelled untyped, as Python has
  them, so that the empty list is one value whatever produced it.
\<close>

datatype pyval = PStr string | PList "pyval list"

text \<open>\<^verbatim>\<open>len(v)\<close>: the number of characters of a string, of elements of a list.\<close>

fun py_len :: "pyval \<Rightarrow> nat" where
  "py_len (PStr s) = length s"
| "py_len (PList vs) = length vs"

text \<open>\<^verbatim>\<open>for x in v\<close>: a string yields its characters as one-character strings.\<close>

fun py_iter :: "pyval \<Rightarrow> pyval list" where
  "py_iter (PStr s) = map (\<lambda>c. PStr [c]) s"
| "py_iter (PList vs) = vs"

fun is_PList :: "pyval \<Rightarrow> bool" where
  "is_PList (PStr s) = False"
| "is_PList (PList vs) = True"

text \<open>\<^verbatim>\<open>set(v)\<close>: the set of the items of \<open>v\<close>; a list among them is unhashable.\<close>

definition py_set :: "pyval \<Rightarrow> error + pyval set" where
  "py_set v =
     (if list_ex is_PList (py_iter v) then Inl Type_error else Inr (set (py_iter v)))"

section \<open>Parsing the endpoint\<close>

text \<open>
  \<^verbatim>\<open>int(s)\<close> of Python 2 on a byte string, base 10: white space around the literal is
  ignored, one sign may precede the digits, and at least one digit is required.
\<close>

definition is_space :: "char \<Rightarrow> bool" where
  "is_space c = (c \<in> set [CHR '' '', CHR 0x09, CHR 0x0A, CHR 0x0B, CHR 0x0C, CHR 0x0D])"

definition is_digit :: "char \<Rightarrow> bool" where
  "is_digit c = (c \<in> set ''0123456789'')"

definition digit_val :: "char \<Rightarrow> nat" where
  "digit_val c = of_char c - 48"

definition strip :: "string \<Rightarrow> string" where
  "strip s = rev (dropWhile is_space (rev (dropWhile is_space s)))"

definition digits_val :: "string \<Rightarrow> nat" where
  "digits_val ds = foldl (\<lambda>acc c. 10 * acc + digit_val c) 0 ds"

definition py_int :: "string \<Rightarrow> error + int" where
  "py_int s =
     (let t = strip s;
          neg = (t \<noteq> [] \<and> hd t = CHR ''-'');
          body = (if t \<noteq> [] \<and> (hd t = CHR ''-'' \<or> hd t = CHR ''+'') then tl t else t)
      in if body \<noteq> [] \<and> list_all is_digit body
         then Inr (if neg then - int (digits_val body) else int (digits_val body))
         else Inl Value_error)"

text \<open>\<^verbatim>\<open>s.split(sep)\<close> for a one-character separator: never empty, one part more than
  there are separators.\<close>

fun split :: "char \<Rightarrow> string \<Rightarrow> string list" where
  "split sep [] = [[]]"
| "split sep (c # cs) =
     (if c = sep then [] # split sep cs
      else (case split sep cs of
              [] \<Rightarrow> [[c]]
            | part # parts \<Rightarrow> (c # part) # parts))"

text \<open>
  \<^verbatim>\<open>
  def parse_at(at):
      if ':' in at:
          server_ip, server_port = at.split(':')
          server_port = int(server_port)
      else:
          server_ip = at
          server_port = 53
      return server_ip, server_port
  \<close>
\<close>

definition parse_at :: "string \<Rightarrow> error + (string \<times> int)" where
  "parse_at at' =
     (if CHR '':'' \<in> set at' then
        (case split CHR '':'' at' of
           [server_ip, server_port] \<Rightarrow>
             (case py_int server_port of
                Inl e \<Rightarrow> Inl e
              | Inr port \<Rightarrow> Inr (server_ip, port))
         | _ \<Rightarrow> Inl Value_error)
      else Inr (at', 53))"

section \<open>Responses and their addresses\<close>

text \<open>
  Of a decoded \<^verbatim>\<open>dpkt.dns.DNS\<close> message the program reads the answer section \<^verbatim>\<open>an\<close>, and
  of each resource record its \<^verbatim>\<open>type\<close> and \<^verbatim>\<open>rdata\<close>. It also applies \<^verbatim>\<open>len\<close> to a
  message (see \<open>resolve_over_udp\<close>): dpkt answers with the length of the packed message,
  kept here as the field \<open>wire_len\<close>, on which nothing is assumed.
\<close>

record answer =
  rr_type :: nat
  rdata :: "8 word list"

record response =
  an :: "answer list"
  wire_len :: nat

definition DNS_A :: nat where
  "DNS_A = 1"

text \<open>\<^verbatim>\<open>socket.inet_ntoa\<close>: four bytes to dotted decimal, anything else raises.\<close>

definition digit_char :: "nat \<Rightarrow> char" where
  "digit_char d = ''0123456789'' ! d"

definition show_byte :: "8 word \<Rightarrow> string" where
  "show_byte b =
     (let n = unat b in
      if n < 10 then [digit_char n]
      else if n < 100 then [digit_char (n div 10), digit_char (n mod 10)]
      else [digit_char (n div 100), digit_char (n div 10 mod 10), digit_char (n mod 10)])"

definition inet_ntoa :: "8 word list \<Rightarrow> error + string" where
  "inet_ntoa packed =
     (if length packed = 4 then
        Inr (show_byte (packed ! 0) @ ''.'' @ show_byte (packed ! 1) @ ''.'' @
             show_byte (packed ! 2) @ ''.'' @ show_byte (packed ! 3))
      else Inl Socket_error)"

text \<open>
  A list comprehension whose element expression may raise: the first failure ends it.
\<close>

fun map_raising :: "('a \<Rightarrow> error + 'b) \<Rightarrow> 'a list \<Rightarrow> error + 'b list" where
  "map_raising f [] = Inr []"
| "map_raising f (x # xs) =
     (case f x of
        Inl e \<Rightarrow> Inl e
      | Inr y \<Rightarrow> (case map_raising f xs of Inl e \<Rightarrow> Inl e | Inr ys \<Rightarrow> Inr (y # ys)))"

text \<open>
  \<^verbatim>\<open>
  def list_ipv4_addresses(response):
      return [socket.inet_ntoa(answer.rdata) for answer in response.an
              if dpkt.dns.DNS_A == answer.type]
  \<close>
\<close>

definition list_ipv4_addresses :: "response \<Rightarrow> error + string list" where
  "list_ipv4_addresses response =
     map_raising (\<lambda>answer. inet_ntoa (rdata answer))
       (filter (\<lambda>answer. DNS_A = rr_type answer) (an response))"

text \<open>
  \<^verbatim>\<open>
  def is_right_response(response, wrong_answers):
      answers = list_ipv4_addresses(response)
      if not answers: # GFW can forge empty response
          return False
      if len(answers) > 1: # GFW does not forge response with more than one answer
          return True
      return not any(answer in wrong_answers for answer in answers)
  \<close>
\<close>

definition is_right_response :: "response \<Rightarrow> string set \<Rightarrow> error + bool" where
  "is_right_response response wrong_answers =
     (case list_ipv4_addresses response of
        Inl e \<Rightarrow> Inl e
      | Inr answers \<Rightarrow>
          if answers = [] then Inr False
          else if length answers > 1 then Inr True
          else Inr (\<not> list_ex (\<lambda>answer. answer \<in> wrong_answers) answers))"

section \<open>The world outside the program\<close>

text \<open>
  The program reads the clock with \<^verbatim>\<open>time.time()\<close>, opens one datagram socket per
  \<^verbatim>\<open>resolve_over_udp\<close> call, sends one query on it and waits on it with
  \<^verbatim>\<open>select.select\<close>. The world records what these calls will answer and what they did:
  \<^item> \<open>clock w n\<close> is the value of the \<open>n\<close>-th reading of the clock, \<open>ticks w\<close> counts the
    readings made so far (time is a real number; the rounding of floats is left out);
  \<^item> \<open>net w\<close> holds, for each socket that will be opened, the outcomes of the successive
    \<^verbatim>\<open>select\<close> calls on it; a socket whose list is used up stays silent, so that its
    next \<^verbatim>\<open>select\<close> times out;
  \<^item> \<open>sent w\<close> logs the queries sent: the name asked for, the server address and port.
  Opening the socket, encoding the query and \<^verbatim>\<open>sendto\<close> are taken to succeed.
\<close>

datatype datagram = Dns response | Undecodable

datatype sock_event =
    Sel_error
  | Sel_timeout
  | Sel_ready datagram

record world =
  clock :: "nat \<Rightarrow> real"
  ticks :: nat
  net :: "sock_event list list"
  sent :: "(string \<times> string \<times> int) list"

definition time_time :: "world \<Rightarrow> real \<times> world" where
  "time_time w = (clock w (ticks w), w\<lparr>ticks := Suc (ticks w)\<rparr>)"

definition socket_socket :: "world \<Rightarrow> sock_event list \<times> world" where
  "socket_socket w =
     (case net w of
        [] \<Rightarrow> ([], w)
      | sock # socks \<Rightarrow> (sock, w\<lparr>net := socks\<rparr>))"

definition sendto :: "string \<Rightarrow> string \<times> int \<Rightarrow> world \<Rightarrow> world" where
  "sendto domain addr w = w\<lparr>sent := sent w @ [(domain, fst addr, snd addr)]\<rparr>"

text \<open>\<^verbatim>\<open>dpkt.dns.DNS(sock.recv(512))\<close>.\<close>

definition decode :: "datagram \<Rightarrow> error + response" where
  "decode d = (case d of Undecodable \<Rightarrow> Inl Unpack_error | Dns response \<Rightarrow> Inr response)"

section \<open>Collecting responses\<close>

text \<open>
  \<^verbatim>\<open>pick_responses\<close> returns the list \<^verbatim>\<open>picked_responses\<close> on three of its paths and the
  bare \<^verbatim>\<open>response\<close> object on two (\<^verbatim>\<open>return response\<close> under pick-first and pick-right).
\<close>

datatype picked = Response_object response | Response_list "response list"

text \<open>
  \<^verbatim>\<open>
  def pick_responses(sock, timeout, strategy, wrong_answers):
      picked_responses = []
      started_at = time.time()
      remaining_timeout = started_at + timeout - time.time()
      while remaining_timeout > 0:
          ins, outs, errors = select.select([sock], [], [sock], remaining_timeout)
          if errors:
              raise Exception('failed to read dns response')
          if not ins:
              return picked_responses
          response = dpkt.dns.DNS(sock.recv(512))
          if 'pick-first' == strategy:
              return response
          elif 'pick-later' == strategy:
              picked_responses = [response]
          elif 'pick-right' == strategy:
              if is_right_response(response, wrong_answers):
                  return response
          elif 'pick-right-later' == strategy:
              if is_right_response(response, wrong_answers):
                  picked_responses = [response]
          elif 'pick-all' == strategy:
              picked_responses.append(response)
          else:
              raise Exception('unsupported strategy: %s' % strategy)
          remaining_timeout = started_at + timeout - time.time()
      return picked_responses
  \<close>
  The loop is \<open>pick_loop\<close>, by recursion on the outcomes the socket still holds: every
  turn that goes round again has consumed one. On a silent socket (the first equation)
  the loop either is not entered or its \<^verbatim>\<open>select\<close> times out; both return
  \<^verbatim>\<open>picked_responses\<close>.
\<close>

fun pick_loop ::
  "real \<Rightarrow> real \<Rightarrow> string \<Rightarrow> string set \<Rightarrow> response list \<Rightarrow> real \<Rightarrow>
   sock_event list \<Rightarrow> world \<Rightarrow> (error + picked) \<times> world" where
  "pick_loop started_at timeout strategy wrong_answers picked_responses remaining_timeout
     [] w = (Inr (Response_list picked_responses), w)"
| "pick_loop started_at timeout strategy wrong_answers picked_responses remaining_timeout
     (ev # sock) w =
     (if remaining_timeout > 0 then
        (case ev of
           Sel_error \<Rightarrow> (Inl Failed_to_read, w)
         | Sel_timeout \<Rightarrow> (Inr (Response_list picked_responses), w)
         | Sel_ready d \<Rightarrow>
             (case decode d of
                Inl e \<Rightarrow> (Inl e, w)
              | Inr response \<Rightarrow>
                  if ''pick-first'' = strategy then (Inr (Response_object response), w)
                  else if ''pick-later'' = strategy then
                    (case time_time w of (now, w') \<Rightarrow>
                       pick_loop started_at timeout strategy wrong_answers [response]
                         (started_at + timeout - now) sock w')
                  else if ''pick-right'' = strategy then
                    (case is_right_response response wrong_answers of
                       Inl e \<Rightarrow> (Inl e, w)
                     | Inr right \<Rightarrow>
                         if right then (Inr (Response_object response), w)
                         else (case time_time w of (now, w') \<Rightarrow>
                                 pick_loop started_at timeout strategy wrong_answers
                                   picked_responses (started_at + timeout - now) sock w'))
                  else if ''pick-right-later'' = strategy then
                    (case is_right_response response wrong_answers of
                       Inl e \<Rightarrow> (Inl e, w)
                     | Inr right \<Rightarrow>
                         (case time_time w of (now, w') \<Rightarrow>
                            pick_loop started_at timeout strategy wrong_answers
                              (if right then [response] else picked_responses)
                              (started_at + timeout - now) sock w'))
                  else if ''pick-all'' = strategy then
                    (case time_time w of (now, w') \<Rightarrow>
                       pick_loop started_at timeout strategy wrong_answers
                         (picked_responses @ [response])
                         (started_at + timeout - now) sock w')
                  else (Inl (Unsupported_strategy strategy), w)))
      else (Inr (Response_list picked_responses), w))"

definition pick_responses ::
  "sock_event list \<Rightarrow> real \<Rightarrow> string \<Rightarrow> string set \<Rightarrow> world \<Rightarrow> (error + picked) \<times> world" where
  "pick_responses sock timeout strategy wrong_answers w =
     (case time_time w of (started_at, w1) \<Rightarrow>
      case time_time w1 of (now, w2) \<Rightarrow>
        pick_loop started_at timeout strategy wrong_answers []
          (started_at + timeout - now) sock w2)"

section \<open>Resolving over UDP\<close>

text \<open>
  \<^verbatim>\<open>len(responses)\<close>, \<^verbatim>\<open>responses[0]\<close> and \<^verbatim>\<open>for response in responses\<close> on what
  \<^verbatim>\<open>pick_responses\<close> returned. On a list they are the list's. On a single
  \<^verbatim>\<open>dpkt.dns.DNS\<close> object, \<^verbatim>\<open>len\<close> is the length of the packed message, and the object is
  no sequence of responses: subscripting it with \<open>0\<close> and iterating it raise.
\<close>

fun picked_len :: "picked \<Rightarrow> nat" where
  "picked_len (Response_object r) = wire_len r"
| "picked_len (Response_list rs) = length rs"

fun picked_first :: "picked \<Rightarrow> error + response" where
  "picked_first (Response_object r) = Inl Type_error"
| "picked_first (Response_list []) = Inl Index_error"
| "picked_first (Response_list (r # rs)) = Inr r"

fun picked_iter :: "picked \<Rightarrow> error + response list" where
  "picked_iter (Response_object r) = Inl Type_error"
| "picked_iter (Response_list rs) = Inr rs"

text \<open>
  \<^verbatim>\<open>
  def resolve_over_udp(domain, server_ip, server_port, timeout, strategy, wrong_answers):
      sock = socket.socket(family=socket.AF_INET, type=socket.SOCK_DGRAM)
      sock.settimeout(1)
      with contextlib.closing(sock):
          request = dpkt.dns.DNS(id=os.getpid(), qd=[dpkt.dns.DNS.Q(name=domain, type=dpkt.dns.DNS_A)])
          sock.sendto(str(request), (server_ip, server_port))
          responses = pick_responses(sock, timeout, strategy, wrong_answers)
          if len(responses) == 1:
              return list_ipv4_addresses(responses[0])
          elif len(responses) > 1:
              return [list_ipv4_addresses(response) for response in responses]
          else:
              return []
  \<close>
\<close>

definition flat :: "string list \<Rightarrow> pyval" where
  "flat answers = PList (map PStr answers)"

definition nested :: "string list list \<Rightarrow> pyval" where
  "nested answers_list = PList (map flat answers_list)"

definition resolve_over_udp ::
  "string \<Rightarrow> string \<Rightarrow> int \<Rightarrow> real \<Rightarrow> string \<Rightarrow> string set \<Rightarrow> world \<Rightarrow>
   (error + pyval) \<times> world" where
  "resolve_over_udp domain server_ip server_port timeout strategy wrong_answers w =
     (case socket_socket w of (sock, w1) \<Rightarrow>
      case pick_responses sock timeout strategy wrong_answers
             (sendto domain (server_ip, server_port) w1) of
        (Inl e, w') \<Rightarrow> (Inl e, w')
      | (Inr responses, w') \<Rightarrow>
          if picked_len responses = 1 then
            (case picked_first responses of
               Inl e \<Rightarrow> (Inl e, w')
             | Inr response \<Rightarrow>
                 (case list_ipv4_addresses response of
                    Inl e \<Rightarrow> (Inl e, w')
                  | Inr answers \<Rightarrow> (Inr (flat answers), w')))
          else if picked_len responses > 1 then
            (case picked_iter responses of
               Inl e \<Rightarrow> (Inl e, w')
             | Inr rs \<Rightarrow>
                 (case map_raising list_ipv4_addresses rs of
                    Inl e \<Rightarrow> (Inl e, w')
                  | Inr answers_list \<Rightarrow> (Inr (nested answers_list), w')))
          else (Inr (PList []), w'))"

section \<open>Discovering wrong answers\<close>

text \<open>
  \<^verbatim>\<open>
  def discover_once(domain, server_ip, server_port, timeout):
      wrong_answers = set()
      responses_answers = resolve_over_udp(domain, server_ip, server_port, timeout, 'pick-all', set())
      contains_right_answer = any(len(answers) > 1 for answers in responses_answers)
      if contains_right_answer:
          for answers in responses_answers:
              if len(answers) == 1:
                  wrong_answers |= set(answers)
      return wrong_answers
  \<close>
  \<open>union_single_answers\<close> is the inner \<^verbatim>\<open>for\<close> loop with its accumulator.
\<close>

fun union_single_answers :: "pyval list \<Rightarrow> pyval set \<Rightarrow> error + pyval set" where
  "union_single_answers [] wrong_answers = Inr wrong_answers"
| "union_single_answers (answers # rest) wrong_answers =
     (if py_len answers = 1 then
        (case py_set answers of
           Inl e \<Rightarrow> Inl e
         | Inr s \<Rightarrow> union_single_answers rest (wrong_answers \<union> s))
      else union_single_answers rest wrong_answers)"

definition discover_once ::
  "string \<Rightarrow> string \<Rightarrow> int \<Rightarrow> real \<Rightarrow> world \<Rightarrow> (error + pyval set) \<times> world" where
  "discover_once domain server_ip server_port timeout w =
     (case resolve_over_udp domain server_ip server_port timeout ''pick-all'' {} w of
        (Inl e, w') \<Rightarrow> (Inl e, w')
      | (Inr responses_answers, w') \<Rightarrow>
          (let contains_right_answer =
                 list_ex (\<lambda>answers. py_len answers > 1) (py_iter responses_answers)
           in if contains_right_answer then
                (union_single_answers (py_iter responses_answers) {}, w')
              else (Inr {}, w')))"

text \<open>
  \<^verbatim>\<open>
  def discover(domain, at, timeout):
      server_ip, server_port = parse_at(at)
      domains = domain
      wrong_answers = set()
      for domain in domains:
          wrong_answers |= discover_once(domain, server_ip, server_port, timeout)
      return wrong_answers
  \<close>
  \<open>discover_loop\<close> is the \<^verbatim>\<open>for\<close> loop with its accumulator.
\<close>

fun discover_loop ::
  "string list \<Rightarrow> string \<Rightarrow> int \<Rightarrow> real \<Rightarrow> pyval set \<Rightarrow> world \<Rightarrow>
   (error + pyval set) \<times> world" where
  "discover_loop [] server_ip server_port timeout wrong_answers w = (Inr wrong_answers, w)"
| "discover_loop (domain # domains) server_ip server_port timeout wrong_answers w =
     (case discover_once domain server_ip server_port timeout w of
        (Inl e, w') \<Rightarrow> (Inl e, w')
      | (Inr s, w') \<Rightarrow>
          discover_loop domains server_ip server_port timeout (wrong_answers \<union> s) w')"

definition discover ::
  "string list \<Rightarrow> string \<Rightarrow> real \<Rightarrow> world \<Rightarrow> (error + pyval set) \<times> world" where
  "discover domain at' timeout w =
     (case parse_at at' of
        Inl e \<Rightarrow> (Inl e, w)
      | Inr (server_ip, server_port) \<Rightarrow>
          discover_loop domain server_ip server_port timeout {} w)"

section \<open>Notions used to state the properties\<close>

text \<open>
  A socket is silent when its next \<^verbatim>\<open>select\<close> times out: nothing more arrives before
  the deadline.
\<close>

fun silent :: "sock_event list \<Rightarrow> bool" where
  "silent [] = True"
| "silent (ev # evs) = (ev = Sel_timeout)"

text \<open>
  \<open>remaining w timeout k\<close> is the value of \<^verbatim>\<open>remaining_timeout\<close> at the \<open>k\<close>-th test of the
  loop condition (\<open>k = 0\<close> for the test before the first \<^verbatim>\<open>select\<close>), in a call of
  \<^verbatim>\<open>pick_responses\<close> that starts in world \<open>w\<close>: the first reading of the clock is
  \<^verbatim>\<open>started_at\<close>, and each test follows one more reading. The \<open>k\<close>-th response
  (counted from 0) arrives before the deadline when \<open>0 < remaining w timeout k\<close> and the
  \<^verbatim>\<open>select\<close> that follows delivers it.
\<close>

definition remaining :: "world \<Rightarrow> real \<Rightarrow> nat \<Rightarrow> real" where
  "remaining w timeout k = clock w (ticks w) + timeout - clock w (ticks w + Suc k)"

definition arrivals :: "response list \<Rightarrow> sock_event list" where
  "arrivals rs = map (\<lambda>r. Sel_ready (Dns r)) rs"

definition recognized_strategies :: "string set" where
  "recognized_strategies =
     {''pick-first'', ''pick-later'', ''pick-right'', ''pick-right-later'', ''pick-all''}"

text \<open>
  The contribution of one domain as the specification words it, from the address lists
  of the responses collected for the domain: if one of them has more than one address,
  the addresses of all those that have exactly one; nothing otherwise.
\<close>

definition contribution :: "string list list \<Rightarrow> string set" where
  "contribution answers_list =
     (if list_ex (\<lambda>answers. 1 < length answers) answers_list
      then \<Union> (set (map set (filter (\<lambda>answers. length answers = 1) answers_list)))
      else {})"

text \<open>
  The contributions of the domains one by one, each \<^verbatim>\<open>discover_once\<close> running in the world
  the one before left.
\<close>

fun discover_each ::
  "string list \<Rightarrow> string \<Rightarrow> int \<Rightarrow> real \<Rightarrow> world \<Rightarrow> (error + pyval set list) \<times> world" where
  "discover_each [] server_ip server_port timeout w = (Inr [], w)"
| "discover_each (domain # domains) server_ip server_port timeout w =
     (case discover_once domain server_ip server_port timeout w of
        (Inl e, w') \<Rightarrow> (Inl e, w')
      | (Inr s, w') \<Rightarrow>
          (case discover_each domains server_ip server_port timeout w' of
             (Inl e, w'') \<Rightarrow> (Inl e, w'')
           | (Inr ss, w'') \<Rightarrow> (Inr (s # ss), w'')))"

text \<open>
  Two worlds simulate the same network when the sockets still to be opened will see the
  same outcomes and the clock will show the same times from now on. The queries already
  sent and the number of clock readings already made may differ: they are what earlier
  calls leave behind.
\<close>

definition same_network :: "world \<Rightarrow> world \<Rightarrow> bool" where
  "same_network w1 w2 =
     (net w1 = net w2 \<and> (\<forall>n. clock w1 (ticks w1 + n) = clock w2 (ticks w2 + n)))"

text \<open>
  Two runs agree when they return the same value (or raise the same error) and leave
  worlds that simulate the same network.
\<close>

definition agree :: "('a \<times> world) \<Rightarrow> ('a \<times> world) \<Rightarrow> bool" where
  "agree p q = (fst p = fst q \<and> same_network (snd p) (snd q))"

text \<open>
  Concrete data for the examples: a response made of address records, and a world whose
  clock advances by one second at each reading.
\<close>

definition a_record :: "8 word list \<Rightarrow> answer" where
  "a_record packed = \<lparr>rr_type = DNS_A, rdata = packed\<rparr>"

definition reply :: "8 word list list \<Rightarrow> response" where
  "reply addresses = \<lparr>an = map a_record addresses, wire_len = 12 + 16 * length addresses\<rparr>"

definition ticking_world :: "sock_event list list \<Rightarrow> world" where
  "ticking_world socks = \<lparr>clock = real, ticks = 0, net = socks, sent = []\<rparr>"

text \<open>
  The same network met later: three readings of the clock and one query have gone before.
\<close>

definition later_world :: "sock_event list list \<Rightarrow> world" where
  "later_world socks =
     \<lparr>clock = (\<lambda>n. real (n - 3)), ticks = 3, net = socks,
      sent = [(''example.com'', ''8.8.4.4'', 53)]\<rparr>"

section \<open>Properties of the endpoint parser\<close>

lemma split_no_sep: "sep \<notin> set s \<Longrightarrow> split sep s = [s]"
  by (induction s) auto

lemma split_append_sep: "sep \<notin> set p \<Longrightarrow> split sep (p @ sep # s) = p # split sep s"
  by (induction p) auto

lemma split_not_Nil: "split sep s \<noteq> []"
  by (induction s) (auto split: list.splits)

lemma length_split: "length (split sep s) = Suc (count_list s sep)"
  by (induction s) (auto split: list.splits simp: split_not_Nil)

lemma py_int_raises_Value_error: "py_int s = Inl e \<Longrightarrow> e = Value_error"
  by (auto simp: py_int_def Let_def split: if_splits)

text \<open>
  C10: a string without \<open>:\<close> is the address, with port 53. A string with exactly one
  \<open>:\<close> is split there: the prefix is the address and \<^verbatim>\<open>int\<close> of the suffix the port, and
  the call raises when the suffix is no integer literal. A string with two or more \<open>:\<close>
  raises.
\<close>

theorem parse_at_cases:
  "(CHR '':'' \<notin> set at' \<longrightarrow> parse_at at' = Inr (at', 53)) \<and>
   (CHR '':'' \<notin> set ip \<and> CHR '':'' \<notin> set suffix \<and> py_int suffix = Inr port \<longrightarrow>
      parse_at (ip @ CHR '':'' # suffix) = Inr (ip, port)) \<and>
   (CHR '':'' \<notin> set ip \<and> CHR '':'' \<notin> set suffix \<and> py_int suffix = Inl e \<longrightarrow>
      parse_at (ip @ CHR '':'' # suffix) = Inl Value_error) \<and>
   (2 \<le> count_list at' CHR '':'' \<longrightarrow> parse_at at' = Inl Value_error)"
proof (intro conjI impI)
  assume "CHR '':'' \<notin> set at'"
  then show "parse_at at' = Inr (at', 53)"
    by (simp add: parse_at_def)
next
  assume h: "CHR '':'' \<notin> set ip \<and> CHR '':'' \<notin> set suffix \<and> py_int suffix = Inr port"
  then have "split CHR '':'' (ip @ CHR '':'' # suffix) = [ip, suffix]"
    by (simp add: split_append_sep split_no_sep)
  with h show "parse_at (ip @ CHR '':'' # suffix) = Inr (ip, port)"
    by (simp add: parse_at_def)
next
  assume h: "CHR '':'' \<notin> set ip \<and> CHR '':'' \<notin> set suffix \<and> py_int suffix = Inl e"
  then have "split CHR '':'' (ip @ CHR '':'' # suffix) = [ip, suffix]"
    by (simp add: split_append_sep split_no_sep)
  moreover have "e = Value_error"
    using h py_int_raises_Value_error by blast
  ultimately show "parse_at (ip @ CHR '':'' # suffix) = Inl Value_error"
    using h by (simp add: parse_at_def)
next
  assume h: "2 \<le> count_list at' CHR '':''"
  then have len: "3 \<le> length (split CHR '':'' at')"
    by (simp add: length_split)
  have mem: "CHR '':'' \<in> set at'"
    using h by (metis count_list_0_iff not_numeral_le_zero)
  obtain a b c rest where "split CHR '':'' at' = a # b # c # rest"
    using len by (metis Suc_le_length_iff numeral_3_eq_3)
  then show "parse_at at' = Inl Value_error"
    using mem by (simp add: parse_at_def)
qed

lemma py_int_5353: "py_int ''5353'' = Inr 5353"
  by (simp add: py_int_def strip_def is_space_def is_digit_def digits_val_def digit_val_def)

lemma py_int_dns: "py_int ''dns'' = Inl Value_error"
  by (simp add: py_int_def strip_def is_space_def is_digit_def)

theorem parse_at_cases_witness:
  "parse_at ''8.8.8.8'' = Inr (''8.8.8.8'', 53) \<and>
   parse_at ''8.8.8.8:5353'' = Inr (''8.8.8.8'', 5353) \<and>
   parse_at ''8.8.8.8:dns'' = Inl Value_error \<and>
   parse_at ''::1'' = Inl Value_error"
proof -
  have a: "parse_at ''8.8.8.8'' = Inr (''8.8.8.8'', 53)"
    using parse_at_cases [of "''8.8.8.8''"] by simp
  have b: "parse_at ''8.8.8.8:5353'' = Inr (''8.8.8.8'', 5353)"
    using parse_at_cases [of _ "''8.8.8.8''" "''5353''" 5353] py_int_5353 by simp
  have c: "parse_at ''8.8.8.8:dns'' = Inl Value_error"
    using parse_at_cases [of _ "''8.8.8.8''" "''dns''" _ Value_error] py_int_dns by simp
  have d: "parse_at ''::1'' = Inl Value_error"
    using parse_at_cases [of "''::1''"] by simp
  from a b c d show ?thesis by blast
qed

section \<open>Properties of the classifier\<close>

text \<open>
  C4: with \<open>answers\<close> the address list of the response, the classifier answers false
  when \<open>answers\<close> is empty, true when it holds more than one address whatever the
  wrong-answer set is, and for exactly one address true iff the address is not in the
  wrong-answer set.
\<close>

theorem is_right_response_cases:
  assumes "list_ipv4_addresses response = Inr answers"
  shows "(answers = [] \<longrightarrow> is_right_response response wrong_answers = Inr False) \<and>
         (1 < length answers \<longrightarrow> is_right_response response wrong_answers = Inr True) \<and>
         (\<forall>a. answers = [a] \<longrightarrow>
            is_right_response response wrong_answers = Inr (a \<notin> wrong_answers))"
  using assms by (auto simp: is_right_response_def)

lemma addresses_of_reply:
  "list_ipv4_addresses (reply [[1, 1, 1, 1]]) = Inr [''1.1.1.1''] \<and>
   list_ipv4_addresses (reply [[2, 2, 2, 2], [3, 3, 3, 3]]) = Inr [''2.2.2.2'', ''3.3.3.3''] \<and>
   list_ipv4_addresses (reply []) = Inr []"
  by (simp add: list_ipv4_addresses_def reply_def a_record_def inet_ntoa_def show_byte_def
      digit_char_def)

theorem is_right_response_cases_witness:
  "is_right_response (reply []) {''1.1.1.1''} = Inr False \<and>
   is_right_response (reply [[2, 2, 2, 2], [3, 3, 3, 3]]) {''2.2.2.2'', ''3.3.3.3''} = Inr True \<and>
   is_right_response (reply [[1, 1, 1, 1]]) {''1.1.1.1''} = Inr False \<and>
   is_right_response (reply [[1, 1, 1, 1]]) {''2.2.2.2''} = Inr True"
proof -
  have e: "list_ipv4_addresses (reply []) = Inr []"
    and m: "list_ipv4_addresses (reply [[2, 2, 2, 2], [3, 3, 3, 3]]) = Inr [''2.2.2.2'', ''3.3.3.3'']"
    and s: "list_ipv4_addresses (reply [[1, 1, 1, 1]]) = Inr [''1.1.1.1'']"
    using addresses_of_reply by simp_all
  have a: "is_right_response (reply []) {''1.1.1.1''} = Inr False"
    using is_right_response_cases [OF e, of "{''1.1.1.1''}"] by simp
  have b: "is_right_response (reply [[2, 2, 2, 2], [3, 3, 3, 3]]) {''2.2.2.2'', ''3.3.3.3''} = Inr True"
    using is_right_response_cases [OF m, of "{''2.2.2.2'', ''3.3.3.3''}"] by simp
  have c: "is_right_response (reply [[1, 1, 1, 1]]) {''1.1.1.1''} = Inr False"
    using is_right_response_cases [OF s, of "{''1.1.1.1''}"] by simp
  have d: "is_right_response (reply [[1, 1, 1, 1]]) {''2.2.2.2''} = Inr True"
    using is_right_response_cases [OF s, of "{''2.2.2.2''}"] by simp
  from a b c d show ?thesis by blast
qed

section \<open>Properties of the collector\<close>

declare pick_loop.simps(2) [simp del]

lemma pick_loop_expired:
  "remaining_timeout \<le> 0 \<or> silent sock \<Longrightarrow>
   pick_loop started_at timeout strategy wrong_answers picked remaining_timeout sock w =
     (Inr (Response_list picked), w)"
  by (cases sock) (auto simp: pick_loop.simps(2))

text \<open>
  C6: when no response arrives before the deadline (the deadline has passed at the first
  test of the loop, or the first \<^verbatim>\<open>select\<close> times out), the collector returns the empty
  list and raises nothing, whatever the strategy and the wrong-answer set are.
\<close>

theorem pick_responses_no_response:
  assumes "remaining w timeout 0 \<le> 0 \<or> silent sock"
  shows "pick_responses sock timeout strategy wrong_answers w =
           (Inr (Response_list []), w\<lparr>ticks := ticks w + 2\<rparr>)"
  using assms
  by (simp add: pick_responses_def time_time_def remaining_def pick_loop_expired)

theorem pick_responses_no_response_witness:
  "silent [] \<and>
   fst (pick_responses [] 10 ''pick-right-later'' {''1.1.1.1''} (ticking_world [])) =
     Inr (Response_list []) \<and>
   remaining (ticking_world []) 1 0 \<le> 0 \<and>
   fst (pick_responses (arrivals [reply [[1, 1, 1, 1]]]) 1 ''pick-first'' {} (ticking_world [])) =
     Inr (Response_list [])"
proof -
  have a: "silent []" by simp
  have b: "remaining (ticking_world []) 1 0 \<le> 0"
    by (simp add: remaining_def ticking_world_def)
  show ?thesis
    using a b
      pick_responses_no_response [of "ticking_world []" 10 "[]" "''pick-right-later''" "{''1.1.1.1''}"]
      pick_responses_no_response [of "ticking_world []" 1 "arrivals [reply [[1, 1, 1, 1]]]" "''pick-first''" "{}"]
    by simp
qed

text \<open>One turn of the loop on a decoded response that arrives with time left.\<close>

lemma pick_loop_ready:
  "0 < remaining_timeout \<Longrightarrow>
   pick_loop started_at timeout strategy wrong_answers picked remaining_timeout
     (Sel_ready (Dns r) # sock) w =
   (if ''pick-first'' = strategy then (Inr (Response_object r), w)
    else if ''pick-later'' = strategy then
      pick_loop started_at timeout strategy wrong_answers [r]
        (started_at + timeout - clock w (ticks w)) sock (w\<lparr>ticks := Suc (ticks w)\<rparr>)
    else if ''pick-right'' = strategy then
      (case is_right_response r wrong_answers of
         Inl e \<Rightarrow> (Inl e, w)
       | Inr right \<Rightarrow>
           if right then (Inr (Response_object r), w)
           else pick_loop started_at timeout strategy wrong_answers picked
                  (started_at + timeout - clock w (ticks w)) sock (w\<lparr>ticks := Suc (ticks w)\<rparr>))
    else if ''pick-right-later'' = strategy then
      (case is_right_response r wrong_answers of
         Inl e \<Rightarrow> (Inl e, w)
       | Inr right \<Rightarrow>
           pick_loop started_at timeout strategy wrong_answers
             (if right then [r] else picked)
             (started_at + timeout - clock w (ticks w)) sock (w\<lparr>ticks := Suc (ticks w)\<rparr>))
    else if ''pick-all'' = strategy then
      pick_loop started_at timeout strategy wrong_answers (picked @ [r])
        (started_at + timeout - clock w (ticks w)) sock (w\<lparr>ticks := Suc (ticks w)\<rparr>)
    else (Inl (Unsupported_strategy strategy), w))"
  by (simp add: pick_loop.simps(2) decode_def time_time_def split: sum.splits)

text \<open>
  A strategy that never returns early folds its update \<open>upd\<close> over the responses that
  arrive in time, in the order of their arrival.
\<close>

lemma pick_loop_run:
  assumes step: "\<And>picked rem r sock w. 0 < rem \<Longrightarrow>
      pick_loop started_at timeout strategy wrong_answers picked rem (Sel_ready (Dns r) # sock) w =
      pick_loop started_at timeout strategy wrong_answers (upd picked r)
        (started_at + timeout - clock w (ticks w)) sock (w\<lparr>ticks := Suc (ticks w)\<rparr>)"
    and "\<forall>k < length rs.
           0 < (if k = 0 then rem else started_at + timeout - clock w (ticks w + k - 1))"
    and "(if rs = [] then rem else started_at + timeout - clock w (ticks w + length rs - 1)) \<le> 0
         \<or> silent rest"
  shows "pick_loop started_at timeout strategy wrong_answers picked rem (arrivals rs @ rest) w =
           (Inr (Response_list (foldl upd picked rs)), w\<lparr>ticks := ticks w + length rs\<rparr>)"
  using assms(2,3)
proof (induction rs arbitrary: picked rem w)
  case Nil
  then show ?case by (simp add: pick_loop_expired arrivals_def)
next
  case (Cons r rs)
  have pos: "0 < rem" using Cons.prems(1) by auto
  let ?rem' = "started_at + timeout - clock w (ticks w)"
  let ?w' = "w\<lparr>ticks := Suc (ticks w)\<rparr>"
  have a: "\<forall>k < length rs.
             0 < (if k = 0 then ?rem' else started_at + timeout - clock ?w' (ticks ?w' + k - 1))"
  proof (intro allI impI)
    fix k assume "k < length rs"
    then have "0 < (if Suc k = 0 then rem
                    else started_at + timeout - clock w (ticks w + Suc k - 1))"
      using Cons.prems(1) by (metis Suc_less_eq length_Cons)
    then show "0 < (if k = 0 then ?rem'
                    else started_at + timeout - clock ?w' (ticks ?w' + k - 1))"
      by (cases k) auto
  qed
  have b: "(if rs = [] then ?rem'
            else started_at + timeout - clock ?w' (ticks ?w' + length rs - 1)) \<le> 0
           \<or> silent rest"
    using Cons.prems(2) by (cases rs) auto
  show ?case
    using Cons.IH [OF a b, of "upd picked r"] pos by (simp add: step arrivals_def)
qed

lemma pick_responses_run:
  assumes step: "\<And>picked rem r sock w. 0 < rem \<Longrightarrow>
      pick_loop (clock w0 (ticks w0)) timeout strategy wrong_answers picked rem
        (Sel_ready (Dns r) # sock) w =
      pick_loop (clock w0 (ticks w0)) timeout strategy wrong_answers (upd picked r)
        (clock w0 (ticks w0) + timeout - clock w (ticks w)) sock (w\<lparr>ticks := Suc (ticks w)\<rparr>)"
    and "\<forall>k < length rs. 0 < remaining w0 timeout k"
    and "remaining w0 timeout (length rs) \<le> 0 \<or> silent rest"
  shows "pick_responses (arrivals rs @ rest) timeout strategy wrong_answers w0 =
           (Inr (Response_list (foldl upd [] rs)), w0\<lparr>ticks := ticks w0 + length rs + 2\<rparr>)"
proof -
  let ?w2 = "w0\<lparr>ticks := Suc (Suc (ticks w0))\<rparr>"
  let ?s = "clock w0 (ticks w0)"
  have a: "\<forall>k < length rs.
             0 < (if k = 0 then ?s + timeout - clock w0 (Suc (ticks w0))
                  else ?s + timeout - clock ?w2 (ticks ?w2 + k - 1))"
  proof (intro allI impI)
    fix k assume "k < length rs"
    then have "0 < remaining w0 timeout k" using assms(2) by blast
    then show "0 < (if k = 0 then ?s + timeout - clock w0 (Suc (ticks w0))
                    else ?s + timeout - clock ?w2 (ticks ?w2 + k - 1))"
      by (cases k) (auto simp: remaining_def)
  qed
  have b: "(if rs = [] then ?s + timeout - clock w0 (Suc (ticks w0))
            else ?s + timeout - clock ?w2 (ticks ?w2 + length rs - 1)) \<le> 0
           \<or> silent rest"
    using assms(3) by (cases rs) (auto simp: remaining_def)
  show ?thesis
    using pick_loop_run [of ?s timeout strategy wrong_answers upd rs _ ?w2 rest "[]", OF step a b]
    by (simp add: pick_responses_def time_time_def)
qed

lemma foldl_append_each: "foldl (\<lambda>picked r. picked @ [r]) acc rs = acc @ rs"
  by (induction rs arbitrary: acc) auto

lemma foldl_keep_last: "foldl (\<lambda>picked r. [r]) acc rs = (if rs = [] then acc else [last rs])"
  by (induction rs arbitrary: acc) auto

lemma pick_responses_all:
  assumes "\<forall>k < length rs. 0 < remaining w timeout k"
    and "remaining w timeout (length rs) \<le> 0 \<or> silent rest"
  shows "pick_responses (arrivals rs @ rest) timeout ''pick-all'' wrong_answers w =
           (Inr (Response_list rs), w\<lparr>ticks := ticks w + length rs + 2\<rparr>)"
  using pick_responses_run [of w timeout "''pick-all''" wrong_answers
      "\<lambda>picked r. picked @ [r]" rs rest, OF _ assms]
  by (simp add: pick_loop_ready foldl_append_each)

lemma pick_responses_later:
  assumes "\<forall>k < length rs. 0 < remaining w timeout k"
    and "remaining w timeout (length rs) \<le> 0 \<or> silent rest"
  shows "pick_responses (arrivals rs @ rest) timeout ''pick-later'' wrong_answers w =
           (Inr (Response_list (if rs = [] then [] else [last rs])),
            w\<lparr>ticks := ticks w + length rs + 2\<rparr>)"
  using pick_responses_run [of w timeout "''pick-later''" wrong_answers
      "\<lambda>picked r. [r]" rs rest, OF _ assms]
  by (simp add: pick_loop_ready foldl_keep_last)

section \<open>Properties of the UDP resolver\<close>

lemma remaining_sendto [simp]:
  "remaining (sendto domain addr (w\<lparr>net := socks\<rparr>)) timeout k = remaining w timeout k"
  by (simp add: remaining_def sendto_def)

lemma remaining_ticking_world [simp]:
  "remaining (ticking_world socks) timeout k = timeout - real (Suc k)"
  by (simp add: remaining_def ticking_world_def)

lemma resolve_over_udp_on_socket:
  "net w = sock # socks \<Longrightarrow>
   resolve_over_udp domain server_ip server_port timeout strategy wrong_answers w =
     (case pick_responses sock timeout strategy wrong_answers
             (sendto domain (server_ip, server_port) (w\<lparr>net := socks\<rparr>)) of
        (Inl e, w') \<Rightarrow> (Inl e, w')
      | (Inr responses, w') \<Rightarrow>
          if picked_len responses = 1 then
            (case picked_first responses of
               Inl e \<Rightarrow> (Inl e, w')
             | Inr response \<Rightarrow>
                 (case list_ipv4_addresses response of
                    Inl e \<Rightarrow> (Inl e, w')
                  | Inr answers \<Rightarrow> (Inr (flat answers), w')))
          else if picked_len responses > 1 then
            (case picked_iter responses of
               Inl e \<Rightarrow> (Inl e, w')
             | Inr rs \<Rightarrow>
                 (case map_raising list_ipv4_addresses rs of
                    Inl e \<Rightarrow> (Inl e, w')
                  | Inr answers_list \<Rightarrow> (Inr (nested answers_list), w')))
          else (Inr (PList []), w'))"
  by (simp add: resolve_over_udp_def socket_socket_def)

lemma addresses_of_reply_2222: "list_ipv4_addresses (reply [[2, 2, 2, 2]]) = Inr [''2.2.2.2'']"
  by (simp add: list_ipv4_addresses_def reply_def a_record_def inet_ntoa_def show_byte_def
      digit_char_def)

text \<open>
  C7: under pick-later, when R1 with the single answer 1.1.1.1 and then R2 with the
  single answer 2.2.2.2 arrive before the deadline and nothing else does, the collector
  holds R2 alone (each arrival replaced the candidate held before) and the resolve
  returns R2's address list.
\<close>

theorem pick_later_two_responses:
  assumes "list_ipv4_addresses r1 = Inr [''1.1.1.1'']"
    and "list_ipv4_addresses r2 = Inr [''2.2.2.2'']"
    and "net w = (arrivals [r1, r2] @ rest) # socks"
    and "0 < remaining w timeout 0" and "0 < remaining w timeout 1"
    and "remaining w timeout 2 \<le> 0 \<or> silent rest"
  shows "fst (pick_responses (arrivals [r1, r2] @ rest) timeout ''pick-later'' wrong_answers
                (sendto domain (server_ip, server_port) (w\<lparr>net := socks\<rparr>))) =
           Inr (Response_list [r2]) \<and>
         fst (resolve_over_udp domain server_ip server_port timeout ''pick-later''
                wrong_answers w) =
           Inr (PList [PStr ''2.2.2.2''])"
proof -
  let ?w = "sendto domain (server_ip, server_port) (w\<lparr>net := socks\<rparr>)"
  have a: "\<forall>k < length [r1, r2]. 0 < remaining ?w timeout k"
    using assms(4,5) by (auto simp: less_Suc_eq)
  have b: "remaining ?w timeout (length [r1, r2]) \<le> 0 \<or> silent rest"
    using assms(6) by (simp add: numeral_2_eq_2)
  have p: "pick_responses (arrivals [r1, r2] @ rest) timeout ''pick-later'' wrong_answers ?w =
        (Inr (Response_list [r2]), ?w\<lparr>ticks := ticks ?w + length [r1, r2] + 2\<rparr>)"
    using pick_responses_later [OF a b, of wrong_answers] by simp
  show ?thesis
    using p assms(2) by (simp add: resolve_over_udp_on_socket [OF assms(3)] flat_def)
qed

theorem pick_later_two_responses_witness:
  "fst (resolve_over_udp ''twitter.com'' ''8.8.8.8'' 53 10 ''pick-later'' {}
          (ticking_world [arrivals [reply [[1, 1, 1, 1]], reply [[2, 2, 2, 2]]]])) =
     Inr (PList [PStr ''2.2.2.2''])"
proof -
  have a: "list_ipv4_addresses (reply [[1, 1, 1, 1]]) = Inr [''1.1.1.1'']"
    using addresses_of_reply by simp
  have n: "net (ticking_world [arrivals [reply [[1, 1, 1, 1]], reply [[2, 2, 2, 2]]]]) =
             (arrivals [reply [[1, 1, 1, 1]], reply [[2, 2, 2, 2]]] @ []) # []"
    by (simp add: ticking_world_def)
  show ?thesis
    using pick_later_two_responses [OF a addresses_of_reply_2222 n, of 10 "{}" "''twitter.com''"
        "''8.8.8.8''" 53]
    by simp
qed

lemma map_raising_length: "map_raising f xs = Inr ys \<Longrightarrow> length ys = length xs"
  by (induction xs arbitrary: ys) (auto split: sum.splits)

text \<open>
  C8: under pick-all, when the responses \<open>rs\<close> arrive before the deadline in this order
  and nothing else does, the collector returns exactly \<open>rs\<close>, in the order of arrival.
  With two responses or more the resolve returns their address lists in that order; for
  R1 = {1.1.1.1}, R2 = {2.2.2.2, 3.3.3.3}, R3 = {1.1.1.1} it returns
  [[1.1.1.1], [2.2.2.2, 3.3.3.3], [1.1.1.1]].
\<close>

theorem pick_all_arrival_order:
  assumes "net w = (arrivals rs @ rest) # socks"
    and "\<forall>k < length rs. 0 < remaining w timeout k"
    and "remaining w timeout (length rs) \<le> 0 \<or> silent rest"
    and "map_raising list_ipv4_addresses rs = Inr answers_list"
  shows "fst (pick_responses (arrivals rs @ rest) timeout ''pick-all'' wrong_answers
                (sendto domain (server_ip, server_port) (w\<lparr>net := socks\<rparr>))) =
           Inr (Response_list rs) \<and>
         (2 \<le> length rs \<longrightarrow>
            fst (resolve_over_udp domain server_ip server_port timeout ''pick-all''
                   wrong_answers w) = Inr (nested answers_list)) \<and>
         (answers_list = [[''1.1.1.1''], [''2.2.2.2'', ''3.3.3.3''], [''1.1.1.1'']] \<longrightarrow>
            fst (resolve_over_udp domain server_ip server_port timeout ''pick-all''
                   wrong_answers w) =
              Inr (PList [PList [PStr ''1.1.1.1''],
                          PList [PStr ''2.2.2.2'', PStr ''3.3.3.3''],
                          PList [PStr ''1.1.1.1'']]))"
proof -
  let ?w = "sendto domain (server_ip, server_port) (w\<lparr>net := socks\<rparr>)"
  have a: "\<forall>k < length rs. 0 < remaining ?w timeout k"
    using assms(2) by simp
  have b: "remaining ?w timeout (length rs) \<le> 0 \<or> silent rest"
    using assms(3) by simp
  have p: "pick_responses (arrivals rs @ rest) timeout ''pick-all'' wrong_answers ?w =
        (Inr (Response_list rs), ?w\<lparr>ticks := ticks ?w + length rs + 2\<rparr>)"
    using pick_responses_all [OF a b] .
  have many: "fst (resolve_over_udp domain server_ip server_port timeout ''pick-all''
                     wrong_answers w) = Inr (nested answers_list)"
    if "2 \<le> length rs"
    using that p assms(4) by (simp add: resolve_over_udp_on_socket [OF assms(1)])
  have len: "length answers_list = length rs"
    using assms(4) by (rule map_raising_length)
  have three: "fst (resolve_over_udp domain server_ip server_port timeout ''pick-all''
                      wrong_answers w) =
                Inr (PList [PList [PStr ''1.1.1.1''],
                            PList [PStr ''2.2.2.2'', PStr ''3.3.3.3''],
                            PList [PStr ''1.1.1.1'']])"
    if "answers_list = [[''1.1.1.1''], [''2.2.2.2'', ''3.3.3.3''], [''1.1.1.1'']]"
  proof -
    have "2 \<le> length rs" using that len by simp
    then show ?thesis using many that by (simp add: nested_def flat_def)
  qed
  from p many three show ?thesis by simp
qed

theorem pick_all_arrival_order_witness:
  "fst (resolve_over_udp ''twitter.com'' ''8.8.8.8'' 53 10 ''pick-all'' {}
          (ticking_world [arrivals [reply [[1, 1, 1, 1]], reply [[2, 2, 2, 2], [3, 3, 3, 3]],
                                    reply [[1, 1, 1, 1]]]])) =
     Inr (PList [PList [PStr ''1.1.1.1''],
                 PList [PStr ''2.2.2.2'', PStr ''3.3.3.3''],
                 PList [PStr ''1.1.1.1'']])"
proof -
  let ?rs = "[reply [[1, 1, 1, 1]], reply [[2, 2, 2, 2], [3, 3, 3, 3]], reply [[1, 1, 1, 1]]]"
  have n: "net (ticking_world [arrivals ?rs]) = (arrivals ?rs @ []) # []"
    by (simp add: ticking_world_def)
  have t: "\<forall>k < length ?rs. 0 < remaining (ticking_world [arrivals ?rs]) 10 k"
    by simp
  have s: "remaining (ticking_world [arrivals ?rs]) 10 (length ?rs) \<le> 0 \<or> silent []"
    by simp
  have m: "map_raising list_ipv4_addresses ?rs =
             Inr [[''1.1.1.1''], [''2.2.2.2'', ''3.3.3.3''], [''1.1.1.1'']]"
    using addresses_of_reply by simp
  show ?thesis
    using pick_all_arrival_order [OF n t s m, of "{}" "''twitter.com''" "''8.8.8.8''" 53]
    by (simp add: nested_def flat_def)
qed

text \<open>
  C1: under pick-first the collector returns the first response as a bare object, not as
  a list of one response. \<^verbatim>\<open>resolve_over_udp\<close> then measures the packed length of R1
  where it means to count responses, and uses R1 as a list: the resolve raises (or, for
  a message of length 0, returns the empty list) and never returns [1.1.1.1].
\<close>

theorem pick_first_returns_bare_object:
  "fst (resolve_over_udp domain server_ip server_port 10 ''pick-first'' wrong_answers
          (ticking_world [arrivals [\<lparr>an = [a_record [1, 1, 1, 1]], wire_len = n1\<rparr>,
                                    \<lparr>an = [a_record [2, 2, 2, 2]], wire_len = n2\<rparr>]])) =
     (if n1 = 0 then Inr (PList []) else Inl Type_error)"
  by (cases "n1 = 1")
    (simp_all add: resolve_over_udp_def socket_socket_def ticking_world_def sendto_def
      pick_responses_def time_time_def arrivals_def pick_loop_ready)

text \<open>
  C2: under pick-right the collector selects exactly one response and returns it as a
  bare object; the resolve does not return that response's flat address list.
\<close>

theorem pick_right_returns_bare_object:
  "fst (pick_responses (arrivals [\<lparr>an = [a_record [2, 2, 2, 2]], wire_len = n\<rparr>]) 10
          ''pick-right'' {''1.1.1.1''} (ticking_world [])) =
     Inr (Response_object \<lparr>an = [a_record [2, 2, 2, 2]], wire_len = n\<rparr>) \<and>
   fst (resolve_over_udp domain server_ip server_port 10 ''pick-right'' {''1.1.1.1''}
          (ticking_world [arrivals [\<lparr>an = [a_record [2, 2, 2, 2]], wire_len = n\<rparr>]])) =
     (if n = 0 then Inr (PList []) else Inl Type_error)"
  by (cases "n = 1")
    (simp_all add: resolve_over_udp_def socket_socket_def ticking_world_def sendto_def
      pick_responses_def time_time_def arrivals_def pick_loop_ready is_right_response_def
      list_ipv4_addresses_def a_record_def inet_ntoa_def show_byte_def digit_char_def)

text \<open>With a strategy that is not recognized, the loop never goes round.\<close>

lemma pick_loop_unsupported:
  assumes "strategy \<notin> recognized_strategies"
  shows "pick_loop started_at timeout strategy wrong_answers picked remaining_timeout sock w =
     (if 0 < remaining_timeout then
        (case sock of
           [] \<Rightarrow> (Inr (Response_list picked), w)
         | Sel_error # _ \<Rightarrow> (Inl Failed_to_read, w)
         | Sel_timeout # _ \<Rightarrow> (Inr (Response_list picked), w)
         | Sel_ready Undecodable # _ \<Rightarrow> (Inl Unpack_error, w)
         | Sel_ready (Dns r) # _ \<Rightarrow> (Inl (Unsupported_strategy strategy), w))
      else (Inr (Response_list picked), w))"
  using assms
  by (auto simp: pick_loop.simps(2) recognized_strategies_def decode_def
      split: list.splits sock_event.splits datagram.splits)

text \<open>
  C3, as the code has it: with a strategy outside the five recognized ones, a UDP
  resolve sends the query first. It raises "unsupported strategy" exactly when a first
  response is received and decoded before the deadline. When no response arrives before
  the deadline it returns the empty list and raises nothing.
\<close>

theorem unsupported_strategy_after_send:
  assumes "strategy \<notin> recognized_strategies"
  shows "sent (snd (resolve_over_udp domain server_ip server_port timeout strategy
                      wrong_answers w)) = sent w @ [(domain, server_ip, server_port)] \<and>
         (fst (resolve_over_udp domain server_ip server_port timeout strategy
                 wrong_answers w) = Inl (Unsupported_strategy strategy) \<longleftrightarrow>
            0 < remaining w timeout 0 \<and>
            (\<exists>r rest. fst (socket_socket w) = Sel_ready (Dns r) # rest)) \<and>
         (remaining w timeout 0 \<le> 0 \<or> silent (fst (socket_socket w)) \<longrightarrow>
            fst (resolve_over_udp domain server_ip server_port timeout strategy
                   wrong_answers w) = Inr (PList []))"
proof -
  obtain sock w1 where s: "socket_socket w = (sock, w1)"
    by (cases "socket_socket w")
  have w1: "clock w1 = clock w" "ticks w1 = ticks w" "sent w1 = sent w"
    using s by (auto simp: socket_socket_def split: list.splits)
  show ?thesis
    using w1
    by (auto simp: resolve_over_udp_def s pick_responses_def time_time_def sendto_def
        pick_loop_unsupported [OF assms] remaining_def
        split: list.splits sock_event.splits datagram.splits)
qed

theorem unsupported_strategy_after_send_witness:
  "''pick-best'' \<notin> recognized_strategies \<and>
   fst (resolve_over_udp ''twitter.com'' ''8.8.8.8'' 53 10 ''pick-best'' {}
          (ticking_world [arrivals [reply [[1, 1, 1, 1]]]])) =
     Inl (Unsupported_strategy ''pick-best'') \<and>
   sent (snd (resolve_over_udp ''twitter.com'' ''8.8.8.8'' 53 10 ''pick-best'' {}
          (ticking_world [arrivals [reply [[1, 1, 1, 1]]]]))) =
     [(''twitter.com'', ''8.8.8.8'', 53)]"
proof -
  have a: "''pick-best'' \<notin> recognized_strategies"
    by (simp add: recognized_strategies_def)
  have b: "fst (socket_socket (ticking_world [arrivals [reply [[1, 1, 1, 1]]]])) =
             Sel_ready (Dns (reply [[1, 1, 1, 1]])) # []"
    by (simp add: socket_socket_def ticking_world_def arrivals_def)
  have c: "0 < remaining (ticking_world [arrivals [reply [[1, 1, 1, 1]]]]) 10 0"
    by simp
  have d: "sent (ticking_world [arrivals [reply [[1, 1, 1, 1]]]]) = []"
    by (simp add: ticking_world_def)
  show ?thesis
    using a b c d
      unsupported_strategy_after_send [OF a, of "''twitter.com''" "''8.8.8.8''" 53 10 "{}"
        "ticking_world [arrivals [reply [[1, 1, 1, 1]]]]"]
    by simp
qed

text \<open>
  C3, as it is stated, fails: with the strategy pick-best and a server that never
  answers, the query is sent and the resolve returns the empty list without an error.
\<close>

theorem unsupported_strategy_counterexample:
  "fst (resolve_over_udp ''twitter.com'' ''8.8.8.8'' 53 10 ''pick-best'' {}
          (ticking_world [])) = Inr (PList []) \<and>
   sent (snd (resolve_over_udp ''twitter.com'' ''8.8.8.8'' 53 10 ''pick-best'' {}
          (ticking_world []))) = [(''twitter.com'', ''8.8.8.8'', 53)]"
  by (simp add: resolve_over_udp_def socket_socket_def ticking_world_def sendto_def
      pick_responses_def time_time_def)

section \<open>Properties of the discovery\<close>

lemma pick_loop_all_returns_list:
  "fst (pick_loop started_at timeout ''pick-all'' wrong_answers picked rem sock w) = Inr p \<Longrightarrow>
   \<exists>rs. p = Response_list rs"
proof (induction sock arbitrary: picked rem w)
  case Nil
  then show ?case by auto
next
  case (Cons ev sock)
  show ?case
  proof (cases "0 < rem")
    case False
    then show ?thesis using Cons.prems by (auto simp: pick_loop_expired)
  next
    case True
    show ?thesis
    proof (cases ev)
      case Sel_error
      then show ?thesis using Cons.prems True by (simp add: pick_loop.simps(2))
    next
      case Sel_timeout
      then show ?thesis using Cons.prems True by (auto simp: pick_loop.simps(2))
    next
      case (Sel_ready d)
      show ?thesis
      proof (cases d)
        case (Dns r)
        then show ?thesis
          using Cons.prems True Sel_ready Cons.IH by (simp add: pick_loop_ready)
      next
        case Undecodable
        then show ?thesis
          using Cons.prems True Sel_ready by (simp add: pick_loop.simps(2) decode_def)
      qed
    qed
  qed
qed

text \<open>
  Whatever pick-all collects without raising is a list of responses, so the hypothesis of
  the next theorem that names the collected responses \<open>rs\<close> loses nothing.
\<close>

lemma pick_responses_all_returns_list:
  "fst (pick_responses sock timeout ''pick-all'' wrong_answers w) = Inr p \<Longrightarrow>
   \<exists>rs. p = Response_list rs"
  by (auto simp: pick_responses_def time_time_def dest: pick_loop_all_returns_list)

lemma length_show_byte: "1 \<le> length (show_byte b)"
  by (simp add: show_byte_def Let_def)

lemma inet_ntoa_length: "inet_ntoa packed = Inr s \<Longrightarrow> 7 \<le> length s"
  using length_show_byte [of "packed ! 0"] length_show_byte [of "packed ! 1"]
    length_show_byte [of "packed ! 2"] length_show_byte [of "packed ! 3"]
  by (auto simp: inet_ntoa_def split: if_splits)

lemma map_raising_member:
  "map_raising f xs = Inr ys \<Longrightarrow> y \<in> set ys \<Longrightarrow> \<exists>x \<in> set xs. f x = Inr y"
  by (induction xs arbitrary: ys) (auto split: sum.splits)

text \<open>An address as \<^verbatim>\<open>inet_ntoa\<close> prints it is never a string of length one.\<close>

lemma list_ipv4_addresses_length:
  "list_ipv4_addresses r = Inr answers \<Longrightarrow> a \<in> set answers \<Longrightarrow> 7 \<le> length a"
  unfolding list_ipv4_addresses_def
  by (drule (1) map_raising_member) (auto dest: inet_ntoa_length)

lemma union_single_answers_none:
  "\<forall>v \<in> set vs. py_len v \<noteq> 1 \<Longrightarrow> union_single_answers vs acc = Inr acc"
  by (induction vs arbitrary: acc) auto

lemma py_set_flat: "py_set (flat answers) = Inr (PStr ` set answers)"
  by (auto simp: py_set_def flat_def list_ex_iff)

lemma py_len_flat [simp]: "py_len (flat answers) = length answers"
  by (simp add: flat_def)

lemma union_single_answers_flat:
  "union_single_answers (map flat answers_list) acc =
     Inr (acc \<union>
          PStr ` \<Union> (set (map set (filter (\<lambda>answers. length answers = 1) answers_list))))"
  by (induction answers_list arbitrary: acc) (auto simp: py_set_flat)

text \<open>
  The three shapes \<^verbatim>\<open>resolve_over_udp\<close> hands to \<^verbatim>\<open>discover_once\<close>: the empty list, the
  flat list of one response (whose items are strings, of which \<^verbatim>\<open>len\<close> then counts the
  characters) and the list of lists.
\<close>

lemma discover_once_contribution:
  assumes "socket_socket w = (sock, w1)"
    and "pick_responses sock timeout ''pick-all'' {}
           (sendto domain (server_ip, server_port) w1) = (Inr (Response_list rs), w')"
    and "map_raising list_ipv4_addresses rs = Inr answers_list"
  shows "discover_once domain server_ip server_port timeout w =
           (Inr (PStr ` contribution answers_list), w')"
proof -
  consider (none) "rs = []" | (one) r where "rs = [r]" | (many) "2 \<le> length rs"
    by (cases rs rule: list.exhaust; cases "tl rs") auto
  then show ?thesis
  proof cases
    case none
    then show ?thesis
      using assms by (simp add: discover_once_def resolve_over_udp_def contribution_def)
  next
    case one
    then obtain answers
      where a: "list_ipv4_addresses r = Inr answers" "answers_list = [answers]"
      using assms(3) by (auto split: sum.splits)
    have long: "\<forall>v \<in> set (map PStr answers). py_len v \<noteq> 1"
      using list_ipv4_addresses_length [OF a(1)] by fastforce
    have res: "resolve_over_udp domain server_ip server_port timeout ''pick-all'' {} w =
                 (Inr (flat answers), w')"
      using assms(1,2) one a by (simp add: resolve_over_udp_def)
    show ?thesis
      using a(2)
      by (simp add: discover_once_def res flat_def union_single_answers_none [OF long]
          contribution_def)
  next
    case many
    have res: "resolve_over_udp domain server_ip server_port timeout ''pick-all'' {} w =
                 (Inr (nested answers_list), w')"
      using assms many by (simp add: resolve_over_udp_def)
    show ?thesis
      by (simp add: discover_once_def res nested_def list_ex_iff union_single_answers_flat
          contribution_def)
  qed
qed

lemma discover_loop_union:
  "discover_loop domains server_ip server_port timeout acc w =
     (case discover_each domains server_ip server_port timeout w of
        (Inl e, w') \<Rightarrow> (Inl e, w')
      | (Inr ss, w') \<Rightarrow> (Inr (acc \<union> \<Union> (set ss)), w'))"
  by (induction domains arbitrary: acc w) (auto split: prod.splits sum.splits)

text \<open>
  C5: let \<open>rs\<close> be the responses collected for a domain and \<open>answers_list\<close> their
  address lists. The domain contributes \<open>contribution answers_list\<close>: if one response has
  more than one address, the addresses of the responses that have exactly one, and
  nothing otherwise. The result of \<^verbatim>\<open>discover\<close> is the union of what the domains
  contribute one after the other.
\<close>

theorem discover_union_of_contributions:
  assumes "socket_socket w = (sock, w1)"
    and "pick_responses sock timeout ''pick-all'' {}
           (sendto domain (server_ip, server_port) w1) = (Inr (Response_list rs), w')"
    and "map_raising list_ipv4_addresses rs = Inr answers_list"
  shows "discover_once domain server_ip server_port timeout w =
           (Inr (PStr ` contribution answers_list), w') \<and>
         (parse_at at' = Inr (server_ip, server_port) \<longrightarrow>
            discover domains at' timeout w0 =
              (case discover_each domains server_ip server_port timeout w0 of
                 (Inl e, w'') \<Rightarrow> (Inl e, w'')
               | (Inr contributions, w'') \<Rightarrow> (Inr (\<Union> (set contributions)), w'')))"
  using discover_once_contribution [OF assms]
  by (auto simp: discover_def discover_loop_union split: prod.splits sum.splits)

lemma addresses_of_reply_9999:
  "list_ipv4_addresses (reply [[9, 9, 9, 9]]) = Inr [''9.9.9.9''] \<and>
   list_ipv4_addresses (reply [[9, 9, 9, 9], [8, 8, 8, 8]]) = Inr [''9.9.9.9'', ''8.8.8.8'']"
  by (simp add: list_ipv4_addresses_def reply_def a_record_def inet_ntoa_def show_byte_def
      digit_char_def)

lemma remaining_real_clock:
  "remaining \<lparr>clock = real, ticks = t, net = socks, sent = s\<rparr> timeout k = timeout - real (Suc k)"
  by (simp add: remaining_def)

theorem discover_union_of_contributions_witness:
  "fst (discover [''twitter.com'', ''example.com''] ''8.8.8.8'' 10
          (ticking_world
             [arrivals [reply [[9, 9, 9, 9]], reply [[9, 9, 9, 9], [8, 8, 8, 8]]],
              arrivals [reply [[1, 1, 1, 1]], reply [[2, 2, 2, 2]]]])) =
     Inr {PStr ''9.9.9.9''}"
proof -
  let ?D = "[reply [[9, 9, 9, 9]], reply [[9, 9, 9, 9], [8, 8, 8, 8]]]"
  let ?E = "[reply [[1, 1, 1, 1]], reply [[2, 2, 2, 2]]]"
  let ?W = "ticking_world [arrivals ?D, arrivals ?E]"
  let ?q1 = "(''twitter.com'', ''8.8.8.8'', 53 :: int)"
  let ?q2 = "(''example.com'', ''8.8.8.8'', 53 :: int)"
  let ?V0 = "\<lparr>clock = real, ticks = 0, net = [arrivals ?E], sent = [?q1]\<rparr>"
  let ?V1 = "\<lparr>clock = real, ticks = 4, net = [arrivals ?E], sent = [?q1]\<rparr>"
  let ?U0 = "\<lparr>clock = real, ticks = 4, net = [], sent = [?q1, ?q2]\<rparr>"
  let ?U1 = "\<lparr>clock = real, ticks = 8, net = [], sent = [?q1, ?q2]\<rparr>"
  have s1: "socket_socket ?W = (arrivals ?D, ?W\<lparr>net := [arrivals ?E]\<rparr>)"
    by (simp add: socket_socket_def ticking_world_def)
  have v0: "sendto ''twitter.com'' (''8.8.8.8'', 53) (?W\<lparr>net := [arrivals ?E]\<rparr>) = ?V0"
    by (simp add: sendto_def ticking_world_def)
  have p1: "pick_responses (arrivals ?D) 10 ''pick-all'' {}
              (sendto ''twitter.com'' (''8.8.8.8'', 53) (?W\<lparr>net := [arrivals ?E]\<rparr>)) =
            (Inr (Response_list ?D), ?V1)"
    using pick_responses_all [of ?D ?V0 10 "[]" "{}"]
    by (simp add: v0 remaining_real_clock)
  have m1: "map_raising list_ipv4_addresses ?D = Inr [[''9.9.9.9''], [''9.9.9.9'', ''8.8.8.8'']]"
    using addresses_of_reply_9999 by simp
  have s2: "socket_socket ?V1 = (arrivals ?E, ?V1\<lparr>net := []\<rparr>)"
    by (simp add: socket_socket_def)
  have u0: "sendto ''example.com'' (''8.8.8.8'', 53) (?V1\<lparr>net := []\<rparr>) = ?U0"
    by (simp add: sendto_def)
  have p2: "pick_responses (arrivals ?E) 10 ''pick-all'' {}
              (sendto ''example.com'' (''8.8.8.8'', 53) (?V1\<lparr>net := []\<rparr>)) =
            (Inr (Response_list ?E), ?U1)"
    unfolding u0
    using pick_responses_all [of ?E ?U0 10 "[]" "{}"]
    by (simp add: remaining_real_clock)
  have m2: "map_raising list_ipv4_addresses ?E = Inr [[''1.1.1.1''], [''2.2.2.2'']]"
    using addresses_of_reply addresses_of_reply_2222 by simp
  have at: "parse_at ''8.8.8.8'' = Inr (''8.8.8.8'', 53)"
    by (simp add: parse_at_def)
  have d1: "discover_once ''twitter.com'' ''8.8.8.8'' 53 10 ?W = (Inr {PStr ''9.9.9.9''}, ?V1)"
    using discover_union_of_contributions [OF s1 p1 m1]
    by (simp add: contribution_def)
  have d2: "discover_once ''example.com'' ''8.8.8.8'' 53 10 ?V1 = (Inr {}, ?U1)"
    using discover_union_of_contributions [OF s2 p2 m2]
    by (simp add: contribution_def)
  show ?thesis
    using discover_union_of_contributions [OF s1 p1 m1, of "''8.8.8.8''"
        "[''twitter.com'', ''example.com'']" ?W] at
    by (simp add: d1 d2)
qed

section \<open>Runs of the discovery on the same network\<close>

lemma agree_pair [simp]: "agree (x, w1) (y, w2) = (x = y \<and> same_network w1 w2)"
  by (simp add: agree_def)

lemma same_network_tick:
  assumes "same_network w1 w2"
  shows "clock w1 (ticks w1) = clock w2 (ticks w2)"
    and "same_network (w1\<lparr>ticks := Suc (ticks w1)\<rparr>) (w2\<lparr>ticks := Suc (ticks w2)\<rparr>)"
proof -
  have "clock w1 (ticks w1 + 0) = clock w2 (ticks w2 + 0)"
    using assms unfolding same_network_def by blast
  then show "clock w1 (ticks w1) = clock w2 (ticks w2)" by simp
  have "clock w1 (ticks w1 + Suc n) = clock w2 (ticks w2 + Suc n)" for n
    using assms unfolding same_network_def by blast
  then show "same_network (w1\<lparr>ticks := Suc (ticks w1)\<rparr>) (w2\<lparr>ticks := Suc (ticks w2)\<rparr>)"
    using assms by (simp add: same_network_def)
qed

lemma pick_loop_same_network:
  "same_network w1 w2 \<Longrightarrow>
   agree (pick_loop started_at timeout strategy wrong_answers picked rem sock w1)
         (pick_loop started_at timeout strategy wrong_answers picked rem sock w2)"
proof (induction sock arbitrary: picked rem w1 w2)
  case Nil
  then show ?case by simp
next
  case (Cons ev sock)
  note tick = same_network_tick [OF Cons.prems]
  show ?case
  proof (cases "0 < rem")
    case False
    then show ?thesis using Cons.prems by (simp add: pick_loop_expired)
  next
    case True
    show ?thesis
    proof (cases ev)
      case Sel_error
      then show ?thesis using Cons.prems True by (simp add: pick_loop.simps(2))
    next
      case Sel_timeout
      then show ?thesis using Cons.prems True by (simp add: pick_loop.simps(2))
    next
      case (Sel_ready d)
      show ?thesis
      proof (cases d)
        case (Dns r)
        then show ?thesis
          using Cons.prems True Sel_ready Cons.IH [OF tick(2)] tick(1)
          by (simp add: pick_loop_ready split: sum.splits)
      next
        case Undecodable
        then show ?thesis
          using Cons.prems True Sel_ready by (simp add: pick_loop.simps(2) decode_def)
      qed
    qed
  qed
qed

lemma pick_responses_same_network:
  assumes "same_network w1 w2"
  shows "agree (pick_responses sock timeout strategy wrong_answers w1)
               (pick_responses sock timeout strategy wrong_answers w2)"
proof -
  note t1 = same_network_tick [OF assms]
  note t2 = same_network_tick [OF t1(2)]
  show ?thesis
    using pick_loop_same_network [OF t2(2)] t1(1) t2(1)
    by (simp add: pick_responses_def time_time_def)
qed

lemma same_network_sendto:
  "same_network w1 w2 \<Longrightarrow> same_network (sendto d1 a1 w1) (sendto d2 a2 w2)"
  by (simp add: same_network_def sendto_def)

lemma socket_socket_same_network:
  "same_network w1 w2 \<Longrightarrow> agree (socket_socket w1) (socket_socket w2)"
  by (auto simp: same_network_def socket_socket_def split: list.splits)

lemma resolve_over_udp_same_network:
  assumes "same_network w1 w2"
  shows "agree (resolve_over_udp domain server_ip server_port timeout strategy wrong_answers w1)
               (resolve_over_udp domain server_ip server_port timeout strategy wrong_answers w2)"
proof -
  obtain sock1 v1 where s1: "socket_socket w1 = (sock1, v1)"
    by (cases "socket_socket w1")
  obtain sock2 v2 where s2: "socket_socket w2 = (sock2, v2)"
    by (cases "socket_socket w2")
  have a: "sock1 = sock2" "same_network v1 v2"
    using socket_socket_same_network [OF assms] s1 s2 by simp_all
  let ?addr = "(server_ip, server_port)"
  let ?p1 = "pick_responses sock1 timeout strategy wrong_answers (sendto domain ?addr v1)"
  let ?p2 = "pick_responses sock1 timeout strategy wrong_answers (sendto domain ?addr v2)"
  have b: "agree ?p1 ?p2"
    by (rule pick_responses_same_network [OF same_network_sendto [OF a(2)]])
  obtain r1 u1 where p1: "?p1 = (r1, u1)" by (cases ?p1)
  obtain r2 u2 where p2: "?p2 = (r2, u2)" by (cases ?p2)
  have c: "r1 = r2" "same_network u1 u2"
    using b p1 p2 by simp_all
  show ?thesis
    using c by (simp add: resolve_over_udp_def s1 s2 a(1) [symmetric] p1 p2 split: sum.splits)
qed

lemma discover_once_same_network:
  assumes "same_network w1 w2"
  shows "agree (discover_once domain server_ip server_port timeout w1)
               (discover_once domain server_ip server_port timeout w2)"
proof -
  let ?r1 = "resolve_over_udp domain server_ip server_port timeout ''pick-all'' {} w1"
  let ?r2 = "resolve_over_udp domain server_ip server_port timeout ''pick-all'' {} w2"
  have a: "agree ?r1 ?r2" by (rule resolve_over_udp_same_network [OF assms])
  obtain r1 u1 where p1: "?r1 = (r1, u1)" by (cases ?r1)
  obtain r2 u2 where p2: "?r2 = (r2, u2)" by (cases ?r2)
  have c: "r1 = r2" "same_network u1 u2" using a p1 p2 by simp_all
  show ?thesis
    using c by (simp add: discover_once_def p1 p2 Let_def split: sum.splits)
qed

lemma discover_loop_same_network:
  "same_network w1 w2 \<Longrightarrow>
   agree (discover_loop domains server_ip server_port timeout acc w1)
         (discover_loop domains server_ip server_port timeout acc w2)"
proof (induction domains arbitrary: acc w1 w2)
  case Nil
  then show ?case by simp
next
  case (Cons domain domains)
  let ?r1 = "discover_once domain server_ip server_port timeout w1"
  let ?r2 = "discover_once domain server_ip server_port timeout w2"
  have a: "agree ?r1 ?r2" by (rule discover_once_same_network [OF Cons.prems])
  obtain r1 u1 where p1: "?r1 = (r1, u1)" by (cases ?r1)
  obtain r2 u2 where p2: "?r2 = (r2, u2)" by (cases ?r2)
  have c: "r1 = r2" "same_network u1 u2" using a p1 p2 by simp_all
  show ?case
    using c Cons.IH [OF c(2)] by (simp add: p1 p2 split: sum.splits)
qed

text \<open>
  C9: two runs of \<^verbatim>\<open>discover\<close> on the same domains, endpoint and timeout, in worlds that
  simulate the same network, return the same set of wrong answers (or raise the same
  error) and leave worlds that still simulate the same network. What earlier calls left
  in the world (the queries sent, the clock readings made) has no influence, and the
  accumulator starts empty in each run.
\<close>

theorem discover_same_network:
  assumes "same_network w1 w2"
  shows "fst (discover domains at' timeout w1) = fst (discover domains at' timeout w2) \<and>
         same_network (snd (discover domains at' timeout w1))
                      (snd (discover domains at' timeout w2))"
  using discover_loop_same_network [OF assms] assms
  by (auto simp: discover_def agree_def split: sum.splits)

theorem discover_same_network_witness:
  "same_network
     (ticking_world [arrivals [reply [[9, 9, 9, 9]], reply [[9, 9, 9, 9], [8, 8, 8, 8]]]])
     (later_world [arrivals [reply [[9, 9, 9, 9]], reply [[9, 9, 9, 9], [8, 8, 8, 8]]]]) \<and>
   fst (discover [''twitter.com''] ''8.8.8.8'' 10
          (ticking_world [arrivals [reply [[9, 9, 9, 9]], reply [[9, 9, 9, 9], [8, 8, 8, 8]]]])) =
   fst (discover [''twitter.com''] ''8.8.8.8'' 10
          (later_world [arrivals [reply [[9, 9, 9, 9]], reply [[9, 9, 9, 9], [8, 8, 8, 8]]]]))"
proof -
  let ?S = "[arrivals [reply [[9, 9, 9, 9]], reply [[9, 9, 9, 9], [8, 8, 8, 8]]]]"
  have a: "same_network (ticking_world ?S) (later_world ?S)"
    by (simp add: same_network_def ticking_world_def later_world_def)
  show ?thesis
    using a discover_same_network [OF a, of "[''twitter.com'']" "''8.8.8.8''" 10]
    by simp
qed

end
